theory Spec2Isabelle
  imports Main "HOL-Library.Sublist"
begin

section \<open>Python values and built-ins used by main.py\<close>

text \<open>
  A Python \<open>str\<close> is a \<open>string\<close>, one \<open>char\<close> per code point. Isabelle's \<open>char\<close> has
  256 values, so the model covers text whose code points lie below U+0100.

  An exception is a value of \<open>exn\<close>; each constructor stands for the class and its
  subclasses (\<open>RequestException\<close> for every class of \<open>requests.exceptions\<close> that derives
  from it: connection errors, timeouts, the library's own JSON decode error).
  \<open>OtherException\<close> is any other subclass of \<open>Exception\<close>, by name.
  A call that may raise returns \<open>exn + 'a\<close>, with \<open>Inl\<close> for the raise.
\<close>

datatype exn =
    InvalidGitRepositoryError
  | RequestException
  | KeyError
  | TypeError
  | AttributeError
  | IndexError
  | OtherException string

text \<open>
  What \<open>response.json()\<close> returns: any JSON value. \<open>JFloat m e\<close> is the decimal
  \<open>m * 10^e\<close>; the program never inspects a number. \<open>JObj\<close> lists a dict's items in
  insertion order.
\<close>

datatype json =
    JNull
  | JBool bool
  | JInt int
  | JFloat int int
  | JStr string
  | JList "json list"
  | JObj "(string \<times> json) list"

definition bind_exn :: "exn + 'a \<Rightarrow> ('a \<Rightarrow> exn + 'b) \<Rightarrow> exn + 'b" where
  "bind_exn r f = (case r of Inl e \<Rightarrow> Inl e | Inr x \<Rightarrow> f x)"

text \<open>\<open>s.startswith(p)\<close>\<close>

definition startswith :: "string \<Rightarrow> string \<Rightarrow> bool" where
  "startswith s p = (take (length p) s = p)"

text \<open>\<open>s.split(c)\<close> for a one-character separator: never the empty list.\<close>

fun split_str :: "string \<Rightarrow> char \<Rightarrow> string list" where
  "split_str [] c = [[]]"
| "split_str (x # xs) c =
     (if x = c then [] # split_str xs c
      else (case split_str xs c of [] \<Rightarrow> [[x]] | l # ls \<Rightarrow> (x # l) # ls))"

text \<open>\<open>sep.join(xs)\<close>\<close>

fun join_str :: "string \<Rightarrow> string list \<Rightarrow> string" where
  "join_str sep [] = []"
| "join_str sep [x] = x"
| "join_str sep (x # y # ys) = x @ sep @ join_str sep (y # ys)"

text \<open>\<open>c.isspace()\<close> for the code points below U+0100, and \<open>s.strip()\<close>.\<close>

definition isspace :: "char \<Rightarrow> bool" where
  "isspace c = (of_char c \<in> set [9, 10, 11, 12, 13, 28, 29, 30, 31, 32, 133, 160 :: nat])"

definition strip :: "string \<Rightarrow> string" where
  "strip s = rev (dropWhile isspace (rev (dropWhile isspace s)))"

text \<open>\<open>s * n\<close> on a string.\<close>

definition repeat_str :: "string \<Rightarrow> nat \<Rightarrow> string" where
  "repeat_str s n = concat (replicate n s)"

text \<open>\<open>str(n)\<close> on an integer, as an f-string formats it.\<close>

definition digit :: "nat \<Rightarrow> char" where
  "digit d = ''0123456789'' ! d"

fun show_nat :: "nat \<Rightarrow> string" where
  "show_nat n = (if n < 10 then [digit n] else show_nat (n div 10) @ [digit (n mod 10)])"

declare show_nat.simps [simp del]

definition show_int :: "int \<Rightarrow> string" where
  "show_int i = (if i < 0 then CHR ''-'' # show_nat (nat (- i)) else show_nat (nat i))"

text \<open>\<open>p in s\<close> on two strings: \<open>p\<close> occurs in \<open>s\<close>.\<close>

fun occurs_in :: "string \<Rightarrow> string \<Rightarrow> bool" where
  "occurs_in p [] = (p = [])"
| "occurs_in p (x # xs) = (startswith (x # xs) p \<or> occurs_in p xs)"

text \<open>
  The operations the program applies to the parsed body, with Python's results on every
  JSON value: \<open>key in d\<close>, \<open>d[key]\<close>, \<open>d[i]\<close>, \<open>len(d)\<close> and \<open>d.strip()\<close>.
\<close>

fun py_in :: "string \<Rightarrow> json \<Rightarrow> exn + bool" where
  "py_in k (JObj kvs) = Inr (map_of kvs k \<noteq> None)"
| "py_in k (JList xs) = Inr (JStr k \<in> set xs)"
| "py_in k (JStr s) = Inr (occurs_in k s)"
| "py_in k _ = Inl TypeError"

fun getitem_key :: "json \<Rightarrow> string \<Rightarrow> exn + json" where
  "getitem_key (JObj kvs) k = (case map_of kvs k of None \<Rightarrow> Inl KeyError | Some v \<Rightarrow> Inr v)"
| "getitem_key _ k = Inl TypeError"

fun getitem_index :: "json \<Rightarrow> nat \<Rightarrow> exn + json" where
  "getitem_index (JList xs) i = (if i < length xs then Inr (xs ! i) else Inl IndexError)"
| "getitem_index (JStr s) i = (if i < length s then Inr (JStr [s ! i]) else Inl IndexError)"
| "getitem_index (JObj kvs) i = Inl KeyError"
| "getitem_index _ i = Inl TypeError"

fun py_len :: "json \<Rightarrow> exn + nat" where
  "py_len (JList xs) = Inr (length xs)"
| "py_len (JStr s) = Inr (length s)"
| "py_len (JObj kvs) = Inr (length (remdups (map fst kvs)))"
| "py_len _ = Inl TypeError"

fun py_strip :: "json \<Rightarrow> exn + string" where
  "py_strip (JStr s) = Inr (strip s)"
| "py_strip _ = Inl AttributeError"

section \<open>What the program does to the outside\<close>

text \<open>
  A printed line is a list of pieces: literal text, \<open>str(e)\<close> of an exception and the
  \<open>repr\<close> of a parsed body are kept apart, since their text belongs to the libraries.
\<close>

datatype piece = Text string | StrOf exn | ReprOf json

record request =
  url :: string
  payload :: json
  headers :: "(string \<times> string) list"
  timeout :: nat

datatype event = Post request | Sleep nat | Print "piece list"

text \<open>
  \<open>requests.post\<close> returns a response or raises. Of a response the program reads
  \<open>status_code\<close>, \<open>text\<close> and \<open>json()\<close>, which may raise.
\<close>

record response =
  status_code :: int
  resp_text :: string
  resp_json :: "exn + json"

text \<open>The outcome of the POST of each attempt, by attempt number.\<close>

type_synonym server = "nat \<Rightarrow> exn + response"

text \<open>
  \<open>git.Repo(path)\<close> returns a repository or raises. Of a repository the program calls
  \<open>repo.index.diff(None)\<close>, which raises or returns the modified items, of which the
  program reads the \<open>a_path\<close>, in order; and \<open>repo.git.diff(a_path)\<close>, which may raise.
\<close>

record repo =
  index_diff :: "exn + string list"
  git_diff :: "string \<Rightarrow> exn + string"

type_synonym git = "string \<Rightarrow> exn + repo"

section \<open>main.py\<close>

definition SYSTEM_PROMPT :: string where
  "SYSTEM_PROMPT = concat [
     ''\<newline>'',
     ''You are an expert software developer helping to write clear, concise, and informative commit messages.\<newline>'',
     ''Analyze the git diff changes and generate a commit message that follows conventional commit format.\<newline>'',
     ''\<newline>'',
     ''Guidelines:\<newline>'',
     ''- Use conventional commit format: <type>(<scope>): <description>\<newline>'',
     ''- Common types: feat, fix, docs, style, refactor, test, chore\<newline>'',
     ''- Keep the description under 50 characters\<newline>'',
     ''- Provide a detailed body explaining WHAT changed and WHY (if needed)\<newline>'',
     ''- Focus on the actual changes, not the process\<newline>'',
     ''- Be specific about what was added, removed, or modified\<newline>'',
     ''\<newline>'',
     ''Example format:\<newline>'',
     ''feat(auth): add user login functionality\<newline>'',
     ''\<newline>'',
     ''- Implement JWT token generation\<newline>'',
     ''- Add login endpoint at /api/auth/login\<newline>'',
     ''- Include input validation for credentials\<newline>'']"

definition MODEL_NAME :: string where
  "MODEL_NAME = ''llama3''"

definition API_ENDPOINT :: string where
  "API_ENDPOINT = ''http://localhost:11434/v1/chat/completions''"

definition API_KEY :: string where
  "API_KEY = ''ollama''"

definition MAX_RETRIES :: nat where
  "MAX_RETRIES = 3"

definition BASE_DELAY :: nat where
  "BASE_DELAY = 1"

subsection \<open>is_git_repository\<close>

definition is_git_repository :: "git \<Rightarrow> string \<Rightarrow> exn + bool" where
  "is_git_repository Repo path =
     (case Repo path of
        Inr r \<Rightarrow> Inr True
      | Inl e \<Rightarrow> if e = InvalidGitRepositoryError then Inr False else Inl e)"

subsection \<open>get_git_diffs\<close>

text \<open>The test of lines 60 to 63.\<close>

definition relevant :: "string \<Rightarrow> bool" where
  "relevant line =
     (startswith line ''+'' \<or> startswith line ''-'' \<or>
      startswith line ''@@'' \<or> startswith line ''diff --git'' \<or>
      startswith line ''---'' \<or> startswith line ''+++'' \<or>
      startswith line ''index '')"

text \<open>The inner loop: \<open>processed_diff\<close> grows at its end.\<close>

fun process_lines :: "string list \<Rightarrow> string list \<Rightarrow> string list" where
  "process_lines [] processed_diff = processed_diff"
| "process_lines (line # rest) processed_diff =
     process_lines rest (if relevant line then processed_diff @ [line] else processed_diff)"

definition process_diff :: "string \<Rightarrow> string list" where
  "process_diff diff_text = process_lines (split_str diff_text CHR ''\<newline>'') []"

text \<open>
  The outer loop over the items, with the list \<open>diffs\<close> and the printed warnings:
  any exception of \<open>repo.git.diff\<close> is caught, printed, and the file skipped.
\<close>

fun diff_items :: "repo \<Rightarrow> string list \<Rightarrow> string list \<times> event list \<Rightarrow> string list \<times> event list" where
  "diff_items r [] st = st"
| "diff_items r (a_path # rest) (diffs, out) =
     diff_items r rest
       (case git_diff r a_path of
          Inl e \<Rightarrow>
            (diffs, out @ [Print [Text ''Warning: Could not get diff for '', Text a_path,
                                  Text '': '', StrOf e]])
        | Inr diff_text \<Rightarrow>
            (let processed_diff = process_diff diff_text in
             if processed_diff \<noteq> []
             then (diffs @ [''File: '' @ a_path @ ''\<newline>'' @ join_str ''\<newline>'' processed_diff], out)
             else (diffs, out)))"

text \<open>
  The whole function. The calls \<open>git.Repo(repo_path)\<close> of line 48 and
  \<open>repo.index.diff(None)\<close> of line 52 stand outside the \<open>try\<close>: what they raise leaves
  the function.
\<close>

definition get_git_diffs :: "git \<Rightarrow> string \<Rightarrow> (exn + string) \<times> event list" where
  "get_git_diffs Repo repo_path =
     (case Repo repo_path of
        Inl e \<Rightarrow> (Inl e, [])
      | Inr r \<Rightarrow>
          (case index_diff r of
             Inl e \<Rightarrow> (Inl e, [])
           | Inr items \<Rightarrow>
               (case diff_items r items ([], []) of
                  (diffs, out) \<Rightarrow> (Inr (join_str ''\<newline>\<newline>'' diffs), out))))"

subsection \<open>call_llm_api\<close>

text \<open>
  Lines 118 to 122 without the print: the message, \<open>None\<close> for the \<open>else\<close> branch, or
  the exception that one of the operations raises.
\<close>

definition read_choices :: "json \<Rightarrow> exn + string option" where
  "read_choices data =
     bind_exn (py_in ''choices'' data) (\<lambda>has.
       if has then
         bind_exn (getitem_key data ''choices'') (\<lambda>choices.
         bind_exn (py_len choices) (\<lambda>n.
           if n > 0 then
             bind_exn (getitem_index choices 0) (\<lambda>choice.
             bind_exn (getitem_key choice ''message'') (\<lambda>message.
             bind_exn (getitem_key message ''content'') (\<lambda>content.
             bind_exn (py_strip content) (\<lambda>s. Inr (Some s)))))
           else Inr None))
       else Inr None)"

datatype flow = Returns "string option" | Raises exn | Continues

text \<open>Lines 116 to 124, on the response of a POST that returned.\<close>

definition on_response :: "response \<Rightarrow> flow \<times> event list" where
  "on_response resp =
     (if status_code resp = 200 then
        (case resp_json resp of
           Inl e \<Rightarrow> (Raises e, [])
         | Inr data \<Rightarrow>
             (case read_choices data of
                Inl e \<Rightarrow> (Raises e, [])
              | Inr (Some s) \<Rightarrow> (Returns (Some s), [])
              | Inr None \<Rightarrow>
                  (Returns None, [Print [Text ''Unexpected response format: '', ReprOf data]])))
      else
        (Continues, [Print [Text ''API request failed with status '',
                            Text (show_int (status_code resp)), Text '': '',
                            Text (resp_text resp)]]))"

text \<open>
  The \<open>try\<close> statement of one attempt, lines 113 to 127: the POST, the body above, and
  the handler, which catches a \<open>RequestException\<close> only.
\<close>

definition try_post :: "server \<Rightarrow> request \<Rightarrow> nat \<Rightarrow> flow \<times> event list" where
  "try_post srv req attempt =
     (case (case srv attempt of Inl e \<Rightarrow> (Raises e, []) | Inr resp \<Rightarrow> on_response resp) of
        (Raises e, out) \<Rightarrow>
          if e = RequestException
          then (Continues,
                Post req # out @
                [Print [Text ''Request error (attempt '', Text (show_nat (attempt + 1)),
                        Text ''/'', Text (show_nat MAX_RETRIES), Text ''): '', StrOf e]])
          else (Raises e, Post req # out)
      | (fl, out) \<Rightarrow> (fl, Post req # out))"

text \<open>Lines 129 to 133.\<close>

definition backoff :: "nat \<Rightarrow> event list" where
  "backoff attempt =
     (if attempt < MAX_RETRIES - 1
      then (let delay = BASE_DELAY * 2 ^ attempt in
            [Print [Text ''Retrying in '', Text (show_nat delay), Text '' seconds...''],
             Sleep delay])
      else [])"

text \<open>The loop \<open>for attempt in range(MAX_RETRIES)\<close> from \<open>attempt\<close> on, and lines 135 to 136.\<close>

function retry_loop :: "server \<Rightarrow> request \<Rightarrow> nat \<Rightarrow> (exn + string option) \<times> event list" where
  "retry_loop srv req attempt =
     (if attempt < MAX_RETRIES then
        (case try_post srv req attempt of
           (Returns r, out) \<Rightarrow> (Inr r, out)
         | (Raises e, out) \<Rightarrow> (Inl e, out)
         | (Continues, out) \<Rightarrow>
             (case retry_loop srv req (Suc attempt) of
                (r, later) \<Rightarrow> (r, out @ backoff attempt @ later)))
      else (Inr None, [Print [Text ''Failed to get response from LLM after all retries.'']]))"
  by pat_completeness auto
termination
  by (relation "measure (\<lambda>(srv, req, attempt). MAX_RETRIES - attempt)") auto

declare retry_loop.simps [simp del]

definition call_llm_api :: "server \<Rightarrow> string \<Rightarrow> (exn + string option) \<times> event list" where
  "call_llm_api srv prompt =
     (let hdrs = [(''Content-Type'', ''application/json''),
                  (''Authorization'', if API_KEY \<noteq> [] then ''Bearer '' @ API_KEY else [])];
          body = JObj [(''model'', JStr MODEL_NAME),
                       (''messages'', JList [JObj [(''role'', JStr ''system''), (''content'', JStr SYSTEM_PROMPT)],
                                             JObj [(''role'', JStr ''user''), (''content'', JStr prompt)]]),
                       (''temperature'', JFloat 3 (- 1)),
                       (''max_tokens'', JInt 500)]
      in retry_loop srv \<lparr>url = API_ENDPOINT, payload = body, headers = hdrs, timeout = 30\<rparr> 0)"

subsection \<open>generate_commit_message\<close>

definition generate_commit_message :: "server \<Rightarrow> string \<Rightarrow> (exn + string option) \<times> event list" where
  "generate_commit_message srv diffs =
     (let user_prompt =
        ''\<newline>Please analyze the following git changes and generate an appropriate commit message:\<newline>\<newline>'' @
        diffs @
        ''\<newline>\<newline>Remember to follow the conventional commit format and focus on the actual changes made.\<newline>''
      in call_llm_api srv user_prompt)"

subsection \<open>main\<close>

text \<open>
  \<open>main\<close> after argument parsing, on the parsed \<open>repo_path\<close>: what it prints and does,
  and whether it returns (\<open>Inr ()\<close>) or an exception leaves it.
\<close>

definition main :: "git \<Rightarrow> server \<Rightarrow> string \<Rightarrow> (exn + unit) \<times> event list" where
  "main Repo srv repo_path =
     (case is_git_repository Repo repo_path of
        Inl e \<Rightarrow> (Inl e, [])
      | Inr False \<Rightarrow>
          (Inr (), [Print [Text ''Error: The specified path is not a valid git repository.'']])
      | Inr True \<Rightarrow>
          (case get_git_diffs Repo repo_path of
             (Inl e, out) \<Rightarrow> (Inl e, out)
           | (Inr diffs, out) \<Rightarrow>
               if diffs = [] then
                 (Inr (), out @ [Print [Text ''No changes detected in the repository.'']])
               else
                 (case generate_commit_message srv diffs of
                    (Inl e, net) \<Rightarrow>
                      (Inr (), out @ net @
                         [Print [Text ''An error occurred while generating the commit message: '', StrOf e],
                          Print [Text ''Please try again later or write the commit message manually.'']])
                  | (Inr None, net) \<Rightarrow>
                      (Inr (), out @ net @ [Print [Text ''No commit message generated.'']])
                  | (Inr (Some commit_message), net) \<Rightarrow>
                      (Inr (), out @ net @
                         [Print [Text ''Suggested commit message:''],
                          Print [Text (repeat_str ''='' 50)],
                          Print [Text commit_message],
                          Print [Text (repeat_str ''='' 50)]]))))"

text \<open>The exit code of the process: 0 when \<open>main\<close> returns, 1 when an exception leaves it.\<close>

definition exit_code :: "(exn + unit) \<times> event list \<Rightarrow> nat" where
  "exit_code run = (case fst run of Inr u \<Rightarrow> 0 | Inl e \<Rightarrow> 1)"

text \<open>The POSTs and the sleeps of a run, in order.\<close>

fun posts :: "event list \<Rightarrow> request list" where
  "posts [] = []"
| "posts (Post r # evs) = r # posts evs"
| "posts (ev # evs) = posts evs"

fun sleeps :: "event list \<Rightarrow> nat list" where
  "sleeps [] = []"
| "sleeps (Sleep d # evs) = d # sleeps evs"
| "sleeps (ev # evs) = sleeps evs"

fun is_print :: "event \<Rightarrow> bool" where
  "is_print (Print line) = True"
| "is_print ev = False"

text \<open>What a run does besides printing, in order.\<close>

definition actions :: "event list \<Rightarrow> event list" where
  "actions evs = filter (\<lambda>ev. \<not> is_print ev) evs"

section \<open>Classes of POST outcomes and of response bodies\<close>

text \<open>
  An attempt fails when the POST raises a \<open>RequestException\<close>, when the status is not
  200, or when the status is 200 and \<open>response.json()\<close> raises a \<open>RequestException\<close>.
\<close>

definition attempt_fails :: "exn + response \<Rightarrow> bool" where
  "attempt_fails outcome =
     (case outcome of
        Inl e \<Rightarrow> e = RequestException
      | Inr resp \<Rightarrow>
          if status_code resp = 200 then resp_json resp = Inl RequestException else True)"

text \<open>
  A body with nothing to read under \<open>choices\<close>: an object without the key, or with an
  empty array, string or object under it; an array without the element \<open>"choices"\<close>; a
  string in which \<open>choices\<close> does not occur.
\<close>

definition reads_as_absent :: "json \<Rightarrow> bool" where
  "reads_as_absent data =
     (case data of
        JObj kvs \<Rightarrow>
          (case map_of kvs ''choices'' of
             None \<Rightarrow> True
           | Some v \<Rightarrow> v = JList [] \<or> v = JStr [] \<or> v = JObj [])
      | JList xs \<Rightarrow> JStr ''choices'' \<notin> set xs
      | JStr s \<Rightarrow> \<not> occurs_in ''choices'' s
      | _ \<Rightarrow> False)"

text \<open>The string under \<open>message.content\<close> of a choice, when the choice has that shape.\<close>

definition message_content :: "json \<Rightarrow> string option" where
  "message_content choice =
     (case choice of
        JObj c \<Rightarrow>
          (case map_of c ''message'' of
             Some (JObj m) \<Rightarrow> (case map_of m ''content'' of Some (JStr s) \<Rightarrow> Some s | _ \<Rightarrow> None)
           | _ \<Rightarrow> None)
      | _ \<Rightarrow> None)"

text \<open>The content of the first choice of a body whose \<open>choices\<close> is a non-empty array.\<close>

definition first_content :: "json \<Rightarrow> string option" where
  "first_content data =
     (case data of
        JObj kvs \<Rightarrow>
          (case map_of kvs ''choices'' of
             Some (JList (choice # rest)) \<Rightarrow> message_content choice
           | _ \<Rightarrow> None)
      | _ \<Rightarrow> None)"


section \<open>Properties\<close>

subsection \<open>Splitting, joining and the line filter\<close>

lemma split_str_nonempty: "split_str s c \<noteq> []"
  by (induction s) (auto split: list.splits)

lemma split_str_lines_no_sep: "l \<in> set (split_str s c) \<Longrightarrow> c \<notin> set l"
proof (induction s arbitrary: l)
  case Nil
  then show ?case by simp
next
  case (Cons x xs)
  then show ?case by (auto split: if_splits list.splits)
qed

lemma split_str_no_sep: "c \<notin> set l \<Longrightarrow> split_str l c = [l]"
  by (induction l) auto

lemma split_str_append_sep:
  "c \<notin> set l \<Longrightarrow> split_str (l @ c # rest) c = l # split_str rest c"
  by (induction l) auto

lemma split_join:
  "ls \<noteq> [] \<Longrightarrow> \<forall>l \<in> set ls. c \<notin> set l \<Longrightarrow> split_str (join_str [c] ls) c = ls"
proof (induction "[c]" ls rule: join_str.induct)
  case 1
  then show ?case by simp
next
  case (2 x)
  then show ?case by (simp add: split_str_no_sep)
next
  case (3 x y ys)
  then show ?case by (simp add: split_str_append_sep)
qed

lemma startswith_prefix: "startswith s p = prefix p s"
  unfolding startswith_def prefix_def
  by (metis append_eq_conv_conj append_take_drop_id)

lemma relevant_iff:
  "relevant line =
     (\<exists>p \<in> set [''+'', ''-'', ''@@'', ''diff --git'', ''---'', ''+++'', ''index '']. prefix p line)"
  unfolding relevant_def startswith_prefix by simp

lemma process_lines_filter: "process_lines ls acc = acc @ filter relevant ls"
  by (induction ls arbitrary: acc) simp_all

lemma process_diff_filter:
  "process_diff t = filter relevant (split_str t CHR ''\<newline>'')"
  by (simp add: process_diff_def process_lines_filter)

lemma process_join:
  assumes "\<forall>l \<in> set ls. CHR ''\<newline>'' \<notin> set l"
  shows "process_diff (join_str ''\<newline>'' ls) = filter relevant ls"
proof (cases ls)
  case Nil
  then show ?thesis by (simp add: process_diff_def relevant_def startswith_def)
next
  case (Cons a as)
  then have "split_str (join_str ''\<newline>'' ls) CHR ''\<newline>'' = ls"
    using assms split_join[of ls "CHR ''\<newline>''"] by simp
  then show ?thesis by (simp add: process_diff_filter)
qed

lemma process_diff_no_newline: "l \<in> set (process_diff t) \<Longrightarrow> CHR ''\<newline>'' \<notin> set l"
  by (auto simp: process_diff_filter dest: split_str_lines_no_sep)

lemma block_lines:
  assumes "CHR ''\<newline>'' \<notin> set a_path" and "process_diff t \<noteq> []"
  shows "split_str (''File: '' @ a_path @ ''\<newline>'' @ join_str ''\<newline>'' (process_diff t)) CHR ''\<newline>''
         = (''File: '' @ a_path) # process_diff t"
proof -
  have "CHR ''\<newline>'' \<notin> set (''File: '' @ a_path)"
    using assms(1) by simp
  then have "split_str ((''File: '' @ a_path) @ CHR ''\<newline>'' # join_str ''\<newline>'' (process_diff t)) CHR ''\<newline>''
        = (''File: '' @ a_path) # split_str (join_str ''\<newline>'' (process_diff t)) CHR ''\<newline>''"
    by (rule split_str_append_sep)
  moreover have "split_str (join_str ''\<newline>'' (process_diff t)) CHR ''\<newline>'' = process_diff t"
    using assms(2) process_diff_no_newline by (intro split_join) auto
  ultimately show ?thesis by simp
qed

text \<open>
  Claim C1: for every diff text the filter keeps exactly the lines that start with one
  of \<open>+\<close>, \<open>-\<close>, \<open>@@\<close>, \<open>diff --git\<close>, \<open>---\<close>, \<open>+++\<close> or \<open>index \<close>, and drops every other
  line; the same holds for any sequence of lines, in whatever order they come.
\<close>

theorem filter_keeps_exactly_prefixed_lines:
  "process_diff diff_text =
     filter (\<lambda>line. \<exists>p \<in> set [''+'', ''-'', ''@@'', ''diff --git'', ''---'', ''+++'', ''index '']. prefix p line)
       (split_str diff_text CHR ''\<newline>'') \<and>
   ((\<forall>l \<in> set ls. CHR ''\<newline>'' \<notin> set l) \<longrightarrow>
    process_diff (join_str ''\<newline>'' ls) =
      filter (\<lambda>line. \<exists>p \<in> set [''+'', ''-'', ''@@'', ''diff --git'', ''---'', ''+++'', ''index '']. prefix p line) ls)"
proof -
  have eq: "relevant =
    (\<lambda>line. \<exists>p \<in> set [''+'', ''-'', ''@@'', ''diff --git'', ''---'', ''+++'', ''index '']. prefix p line)"
    by (rule ext) (rule relevant_iff)
  have a: "process_diff diff_text = filter relevant (split_str diff_text CHR ''\<newline>'')"
    by (rule process_diff_filter)
  have b: "(\<forall>l \<in> set ls. CHR ''\<newline>'' \<notin> set l) \<longrightarrow>
           process_diff (join_str ''\<newline>'' ls) = filter relevant ls"
    using process_join by blast
  show ?thesis
    unfolding eq[symmetric] using a b by (rule conjI)
qed

theorem filter_keeps_exactly_prefixed_lines_witness:
  "process_diff ''diff --git a/x b/x\<newline>index 1..2 100644\<newline>--- a/x\<newline>+++ b/x\<newline>@@ -1 +1 @@\<newline> ctx\<newline>-old\<newline>+new\<newline>\<newline>Binary files a/y and b/y differ''
   = [''diff --git a/x b/x'', ''index 1..2 100644'', ''--- a/x'', ''+++ b/x'', ''@@ -1 +1 @@'', ''-old'', ''+new''] \<and>
   process_diff (join_str ''\<newline>'' [''+new'', '' ctx'', '''', ''-old'']) = [''+new'', ''-old'']"
  using filter_keeps_exactly_prefixed_lines
    [of "''diff --git a/x b/x\<newline>index 1..2 100644\<newline>--- a/x\<newline>+++ b/x\<newline>@@ -1 +1 @@\<newline> ctx\<newline>-old\<newline>+new\<newline>\<newline>Binary files a/y and b/y differ''"
        "[''+new'', '' ctx'', '''', ''-old'']"]
  by simp

text \<open>
  Claim C10: the lines the filter keeps are a subsequence of the lines of the diff text,
  each one unchanged and in the input's order; and the lines of a file's block after its
  \<open>File:\<close> line are exactly those kept lines.
\<close>

theorem kept_lines_subsequence:
  "subseq (process_diff diff_text) (split_str diff_text CHR ''\<newline>'') \<and>
   (git_diff r a_path = Inr diff_text \<and> process_diff diff_text \<noteq> [] \<and> CHR ''\<newline>'' \<notin> set a_path \<longrightarrow>
    map (\<lambda>block. split_str block CHR ''\<newline>'') (fst (diff_items r [a_path] ([], [])))
      = [(''File: '' @ a_path) # process_diff diff_text])"
proof -
  have "subseq (process_diff diff_text) (split_str diff_text CHR ''\<newline>'')"
    by (simp add: process_diff_filter)
  moreover have "map (\<lambda>block. split_str block CHR ''\<newline>'') (fst (diff_items r [a_path] ([], [])))
      = [(''File: '' @ a_path) # process_diff diff_text]"
    if "git_diff r a_path = Inr diff_text" "process_diff diff_text \<noteq> []" "CHR ''\<newline>'' \<notin> set a_path"
    using that block_lines[of a_path diff_text] by simp
  ultimately show ?thesis by blast
qed

theorem kept_lines_subsequence_witness:
  "subseq [''-old'', ''+new''] [''@@ -1 +1 @@'', '' ctx'', ''-old'', ''+new'', ''''] \<and>
   map (\<lambda>block. split_str block CHR ''\<newline>'')
     (fst (diff_items \<lparr>index_diff = Inr [''a.py''], git_diff = (\<lambda>p. Inr '' ctx\<newline>-old\<newline>+new\<newline>'')\<rparr>
             [''a.py''] ([], [])))
   = [[''File: a.py'', ''-old'', ''+new'']]"
  using kept_lines_subsequence
    [of "'' ctx\<newline>-old\<newline>+new\<newline>''"
        "\<lparr>index_diff = Inr [''a.py''], git_diff = (\<lambda>p. Inr '' ctx\<newline>-old\<newline>+new\<newline>'')\<rparr>" "''a.py''"]
  by (simp add: process_diff_def relevant_def startswith_def)

subsection \<open>The bundle\<close>

lemma diff_items_eq:
  "diff_items r ps (diffs, out) =
     (diffs @ map (\<lambda>p. ''File: '' @ p @ ''\<newline>'' @
                      join_str ''\<newline>'' (case git_diff r p of Inl e \<Rightarrow> [] | Inr t \<Rightarrow> process_diff t))
               (filter (\<lambda>p. (case git_diff r p of Inl e \<Rightarrow> [] | Inr t \<Rightarrow> process_diff t) \<noteq> []) ps),
      out @ concat (map (\<lambda>p. case git_diff r p of
                           Inl e \<Rightarrow> [Print [Text ''Warning: Could not get diff for '', Text p, Text '': '', StrOf e]]
                         | Inr t \<Rightarrow> []) ps))"
proof (induction ps arbitrary: diffs out)
  case Nil
  then show ?case by simp
next
  case (Cons p ps)
  show ?case
  proof (cases "git_diff r p")
    case (Inl e)
    then show ?thesis by (simp add: Cons.IH)
  next
    case (Inr t)
    then show ?thesis by (simp add: Cons.IH Let_def)
  qed
qed

lemma posts_append: "posts (xs @ ys) = posts xs @ posts ys"
  by (induction xs rule: posts.induct) simp_all

lemma sleeps_append: "sleeps (xs @ ys) = sleeps xs @ sleeps ys"
  by (induction xs rule: sleeps.induct) simp_all

lemma diff_items_posts: "posts (snd (diff_items r ps (diffs, out))) = posts out"
  unfolding diff_items_eq
  by (induction ps arbitrary: out) (auto simp: posts_append split: sum.splits)

lemma get_git_diffs_posts: "posts (snd (get_git_diffs Repo repo_path)) = []"
proof (cases "Repo repo_path")
  case (Inl e)
  then show ?thesis by (simp add: get_git_diffs_def)
next
  case (Inr r)
  have "posts (snd (diff_items r items ([], []))) = []" for items
    by (simp add: diff_items_posts)
  then show ?thesis
    using Inr by (cases "index_diff r") (simp_all add: get_git_diffs_def case_prod_beta)
qed

text \<open>
  Claim C5: the bundle is the join, with one blank line between them, of one block per
  modified file whose filtered diff is not empty, in the order the repository reports the
  files; a block is the line \<open>File: <path>\<close> followed by the file's filtered lines; a file
  with no filtered line (or whose diff cannot be read) gives no block, so there are at
  most as many blocks as files; with no block at all the bundle is the empty string.
\<close>

theorem bundle_is_ordered_join_of_blocks:
  fixes r :: repo
  defines "kept \<equiv> \<lambda>p. case git_diff r p of Inl e \<Rightarrow> [] | Inr t \<Rightarrow> process_diff t"
  assumes opened: "Repo repo_path = Inr r" and listed: "index_diff r = Inr items"
  shows "fst (get_git_diffs Repo repo_path) =
           Inr (join_str ''\<newline>\<newline>''
                  (map (\<lambda>p. ''File: '' @ p @ ''\<newline>'' @ join_str ''\<newline>'' (kept p))
                     (filter (\<lambda>p. kept p \<noteq> []) items))) \<and>
         fst (diff_items r items ([], [])) =
           map (\<lambda>p. ''File: '' @ p @ ''\<newline>'' @ join_str ''\<newline>'' (kept p))
             (filter (\<lambda>p. kept p \<noteq> []) items) \<and>
         length (fst (diff_items r items ([], []))) \<le> length items \<and>
         ((\<forall>p \<in> set items. kept p = []) \<longrightarrow> fst (get_git_diffs Repo repo_path) = Inr [])"
proof -
  let ?blocks = "map (\<lambda>p. ''File: '' @ p @ ''\<newline>'' @ join_str ''\<newline>'' (kept p))
                     (filter (\<lambda>p. kept p \<noteq> []) items)"
  have blocks: "fst (diff_items r items ([], [])) = ?blocks"
    unfolding diff_items_eq kept_def by simp
  have whole: "fst (get_git_diffs Repo repo_path) = Inr (join_str ''\<newline>\<newline>'' ?blocks)"
    using opened listed blocks by (simp add: get_git_diffs_def case_prod_beta)
  have count: "length (fst (diff_items r items ([], []))) \<le> length items"
    unfolding blocks by simp
  have none: "(\<forall>p \<in> set items. kept p = []) \<longrightarrow> fst (get_git_diffs Repo repo_path) = Inr []"
  proof
    assume "\<forall>p \<in> set items. kept p = []"
    then have "filter (\<lambda>p. kept p \<noteq> []) items = []"
      by (simp add: filter_empty_conv)
    then show "fst (get_git_diffs Repo repo_path) = Inr []"
      unfolding whole by simp
  qed
  show ?thesis using whole blocks count none by blast
qed

theorem bundle_is_ordered_join_of_blocks_witness:
  "fst (get_git_diffs
         (\<lambda>path. Inr \<lparr>index_diff = Inr [''a.py'', ''img.png'', ''gone.txt'', ''b.py''],
                      git_diff = (\<lambda>p. if p = ''a.py'' then Inr '' x\<newline>-old\<newline>+new''
                                       else if p = ''img.png'' then Inr ''Binary files differ''
                                       else if p = ''b.py'' then Inr ''+z''
                                       else Inl (OtherException ''GitCommandError''))\<rparr>)
         ''.'')
   = Inr ''File: a.py\<newline>-old\<newline>+new\<newline>\<newline>File: b.py\<newline>+z''"
  using bundle_is_ordered_join_of_blocks
    [of "\<lambda>path. Inr \<lparr>index_diff = Inr [''a.py'', ''img.png'', ''gone.txt'', ''b.py''],
                      git_diff = (\<lambda>p. if p = ''a.py'' then Inr '' x\<newline>-old\<newline>+new''
                                       else if p = ''img.png'' then Inr ''Binary files differ''
                                       else if p = ''b.py'' then Inr ''+z''
                                       else Inl (OtherException ''GitCommandError''))\<rparr>"
        "''.''"
        "\<lparr>index_diff = Inr [''a.py'', ''img.png'', ''gone.txt'', ''b.py''],
          git_diff = (\<lambda>p. if p = ''a.py'' then Inr '' x\<newline>-old\<newline>+new''
                           else if p = ''img.png'' then Inr ''Binary files differ''
                           else if p = ''b.py'' then Inr ''+z''
                           else Inl (OtherException ''GitCommandError''))\<rparr>"
        "[''a.py'', ''img.png'', ''gone.txt'', ''b.py'']"]
  by (simp add: process_diff_def relevant_def startswith_def)

subsection \<open>Reading the body of a 200 response\<close>

lemma py_in_raises: "py_in k d = Inl e \<Longrightarrow> e = TypeError"
  by (cases d) auto

lemma getitem_key_raises: "getitem_key d k = Inl e \<Longrightarrow> e = KeyError \<or> e = TypeError"
  by (cases d) (auto split: option.splits)

lemma getitem_index_raises:
  "getitem_index d i = Inl e \<Longrightarrow> e = KeyError \<or> e = TypeError \<or> e = IndexError"
  by (cases d) (auto split: if_splits)

lemma py_len_raises: "py_len d = Inl e \<Longrightarrow> e = TypeError"
  by (cases d) auto

lemma py_strip_raises: "py_strip d = Inl e \<Longrightarrow> e = AttributeError"
  by (cases d) auto

lemma bind_exn_Inl:
  "bind_exn r f = Inl e \<Longrightarrow> r = Inl e \<or> (\<exists>x. r = Inr x \<and> f x = Inl e)"
  by (cases r) (auto simp: bind_exn_def)

lemma read_choices_raises: "read_choices d = Inl e \<Longrightarrow> e \<noteq> RequestException"
  unfolding read_choices_def
  by (auto dest!: bind_exn_Inl py_in_raises getitem_key_raises getitem_index_raises
        py_len_raises py_strip_raises split: if_splits)

lemma read_choices_absent: "reads_as_absent d \<Longrightarrow> read_choices d = Inr None"
  unfolding reads_as_absent_def read_choices_def bind_exn_def
  by (auto split: json.splits option.splits)

lemma read_choices_content:
  "first_content d = Some s \<Longrightarrow> read_choices d = Inr (Some (strip s))"
  unfolding first_content_def message_content_def read_choices_def bind_exn_def
  by (auto split: json.splits option.splits list.splits)

lemma read_first_never_None:
  "bind_exn (getitem_index v 0) (\<lambda>choice.
     bind_exn (getitem_key choice ''message'') (\<lambda>message.
     bind_exn (getitem_key message ''content'') (\<lambda>content.
     bind_exn (py_strip content) (\<lambda>s. Inr (Some s))))) \<noteq> Inr None"
  by (auto simp: bind_exn_def split: sum.splits)


lemma read_choices_None:
  "(read_choices d = Inr None) = reads_as_absent d"
proof (cases d)
  case (JObj kvs)
  show ?thesis
  proof (cases "map_of kvs ''choices''")
    case None
    then show ?thesis using JObj by (simp add: read_choices_def reads_as_absent_def bind_exn_def)
  next
    case (Some v)
    have "read_choices d =
      bind_exn (py_len v) (\<lambda>n.
           if n > 0 then
             bind_exn (getitem_index v 0) (\<lambda>choice.
             bind_exn (getitem_key choice ''message'') (\<lambda>message.
             bind_exn (getitem_key message ''content'') (\<lambda>content.
             bind_exn (py_strip content) (\<lambda>s. Inr (Some s)))))
           else Inr None)"
      using JObj Some by (simp add: read_choices_def bind_exn_def)
    moreover have "reads_as_absent d = (v = JList [] \<or> v = JStr [] \<or> v = JObj [])"
      using JObj Some by (simp add: reads_as_absent_def)
    ultimately show ?thesis
      using read_first_never_None[of v]
      by (cases v) (auto simp: bind_exn_def)
  qed
qed (simp_all add: read_choices_def reads_as_absent_def bind_exn_def)


subsection \<open>One attempt, and the retry loop\<close>

lemma try_post_shape:
  "\<exists>fl line. try_post srv req a = (fl, [Post req]) \<or> try_post srv req a = (fl, [Post req, Print line])"
  by (auto simp: try_post_def on_response_def split: sum.splits option.splits)

lemma try_post_posts: "posts (snd (try_post srv req a)) = [req]"
  using try_post_shape[of srv req a] by auto

lemma try_post_sleeps: "sleeps (snd (try_post srv req a)) = []"
  using try_post_shape[of srv req a] by auto

lemma try_post_actions: "actions (snd (try_post srv req a)) = [Post req]"
  using try_post_shape[of srv req a] by (auto simp: actions_def)

lemma try_post_continues: "(fst (try_post srv req a) = Continues) = attempt_fails (srv a)"
proof (cases "srv a")
  case (Inl e)
  then show ?thesis by (auto simp: try_post_def attempt_fails_def)
next
  case (Inr resp)
  then show ?thesis
    by (auto simp: try_post_def attempt_fails_def on_response_def
          split: sum.splits option.splits if_splits dest: read_choices_raises)
qed

lemma try_post_fails:
  assumes "attempt_fails (srv a)"
  shows "\<exists>line. try_post srv req a = (Continues, [Post req, Print line])"
proof -
  have c: "fst (try_post srv req a) = Continues"
    using assms by (simp add: try_post_continues)
  have "snd (try_post srv req a) \<noteq> [Post req]"
    using assms
    by (auto simp: try_post_def attempt_fails_def on_response_def split: sum.splits if_splits)
  then show ?thesis
    using c try_post_shape[of srv req a] by auto
qed

lemma try_post_absent:
  assumes "srv a = Inr resp" "status_code resp = 200" "resp_json resp = Inr d" "reads_as_absent d"
  shows "try_post srv req a =
           (Returns None, [Post req, Print [Text ''Unexpected response format: '', ReprOf d]])"
  using assms by (simp add: try_post_def on_response_def read_choices_absent)

lemma try_post_content:
  assumes "srv a = Inr resp" "status_code resp = 200" "resp_json resp = Inr d" "first_content d = Some s"
  shows "try_post srv req a = (Returns (Some (strip s)), [Post req])"
  using assms by (simp add: try_post_def on_response_def read_choices_content)

lemma try_post_body:
  assumes "srv a = Inr resp" "status_code resp = 200" "resp_json resp = Inr d"
  shows "fst (try_post srv req a) =
           (case read_choices d of Inl e \<Rightarrow> Raises e | Inr r \<Rightarrow> Returns r)"
  using assms
  by (auto simp: try_post_def on_response_def split: sum.splits option.splits dest: read_choices_raises)


lemma retry_loop_end: "retry_loop srv req MAX_RETRIES =
   (Inr None, [Print [Text ''Failed to get response from LLM after all retries.'']])"
  by (simp add: retry_loop.simps)

lemma retry_loop_step:
  assumes "a < MAX_RETRIES" "attempt_fails (srv a)"
  shows "\<exists>line. retry_loop srv req a =
           (fst (retry_loop srv req (Suc a)),
            [Post req, Print line] @ backoff a @ snd (retry_loop srv req (Suc a)))"
proof -
  obtain line where "try_post srv req a = (Continues, [Post req, Print line])"
    using try_post_fails[of srv a req] assms(2) by blast
  then have "retry_loop srv req a =
           (fst (retry_loop srv req (Suc a)),
            [Post req, Print line] @ backoff a @ snd (retry_loop srv req (Suc a)))"
    using assms(1) by (subst retry_loop.simps) (simp add: case_prod_beta)
  then show ?thesis by blast
qed

lemma retry_loop_return:
  assumes "a < MAX_RETRIES" "try_post srv req a = (Returns r, out)"
  shows "retry_loop srv req a = (Inr r, out)"
  using assms by (subst retry_loop.simps) simp

lemma retry_loop_raise:
  assumes "a < MAX_RETRIES" "try_post srv req a = (Raises e, out)"
  shows "retry_loop srv req a = (Inl e, out)"
  using assms by (subst retry_loop.simps) simp


lemma retry_loop_posts: "set (posts (snd (retry_loop srv req a))) \<subseteq> {req}"
proof (induction srv req a rule: retry_loop.induct)
  case (1 srv req attempt)
  show ?case
  proof (cases "attempt < MAX_RETRIES")
    case False
    then show ?thesis by (subst retry_loop.simps) simp
  next
    case True
    obtain fl out where tp: "try_post srv req attempt = (fl, out)" by fastforce
    have po: "posts out = [req]" using try_post_posts[of srv req attempt] tp by simp
    show ?thesis
    proof (cases fl)
      case (Returns r)
      then show ?thesis using retry_loop_return[OF True, of srv req r out] tp po by simp
    next
      case (Raises e)
      then show ?thesis using retry_loop_raise[OF True, of srv req e out] tp po by simp
    next
      case Continues
      have "set (posts (snd (retry_loop srv req (Suc attempt)))) \<subseteq> {req}"
        using "1.IH"[OF True tp[symmetric] Continues] by simp
      moreover have "posts (backoff attempt) = []" by (simp add: backoff_def Let_def)
      ultimately show ?thesis
        using True tp Continues po
        by (subst retry_loop.simps) (simp add: case_prod_beta posts_append)
    qed
  qed
qed

lemma show_nat_1: "show_nat (Suc 0) = ''1''"
  by (subst show_nat.simps) (simp add: digit_def)

lemma show_nat_2: "show_nat 2 = ''2''"
  by (subst show_nat.simps) (simp add: digit_def)

lemma backoff_0: "backoff 0 = [Print [Text ''Retrying in '', Text ''1'', Text '' seconds...''], Sleep 1]"
  by (simp add: backoff_def MAX_RETRIES_def BASE_DELAY_def show_nat_1)

lemma backoff_1: "backoff (Suc 0) = [Print [Text ''Retrying in '', Text ''2'', Text '' seconds...''], Sleep 2]"
  by (simp add: backoff_def MAX_RETRIES_def BASE_DELAY_def show_nat_2)

lemma backoff_2: "backoff (Suc (Suc 0)) = []"
  by (simp add: backoff_def MAX_RETRIES_def)

lemma backoff_sleeps: "sleeps (backoff a) = (if a < MAX_RETRIES - 1 then [BASE_DELAY * 2 ^ a] else [])"
  by (simp add: backoff_def Let_def)

lemma all_fail_events:
  assumes "\<forall>i<MAX_RETRIES. attempt_fails (srv i)"
  shows "\<exists>l0 l1 l2. retry_loop srv req 0 =
    (Inr None,
     [Post req, Print l0, Print [Text ''Retrying in '', Text ''1'', Text '' seconds...''], Sleep 1,
      Post req, Print l1, Print [Text ''Retrying in '', Text ''2'', Text '' seconds...''], Sleep 2,
      Post req, Print l2, Print [Text ''Failed to get response from LLM after all retries.'']])"
proof -
  have f: "attempt_fails (srv 0)" "attempt_fails (srv (Suc 0))" "attempt_fails (srv (Suc (Suc 0)))"
    using assms by (simp_all add: MAX_RETRIES_def)
  have three: "Suc (Suc (Suc 0)) = MAX_RETRIES" by (simp add: MAX_RETRIES_def)
  have e3: "retry_loop srv req (Suc (Suc (Suc 0))) =
      (Inr None, [Print [Text ''Failed to get response from LLM after all retries.'']])"
    using retry_loop_end[of srv req] by (simp add: three)
  obtain l2 where s2: "retry_loop srv req (Suc (Suc 0)) =
      (fst (retry_loop srv req (Suc (Suc (Suc 0)))),
       [Post req, Print l2] @ backoff (Suc (Suc 0)) @ snd (retry_loop srv req (Suc (Suc (Suc 0)))))"
    using retry_loop_step[of "Suc (Suc 0)" srv req] f(3) by (auto simp: MAX_RETRIES_def)
  obtain l1 where s1: "retry_loop srv req (Suc 0) =
      (fst (retry_loop srv req (Suc (Suc 0))),
       [Post req, Print l1] @ backoff (Suc 0) @ snd (retry_loop srv req (Suc (Suc 0))))"
    using retry_loop_step[of "Suc 0" srv req] f(2) by (auto simp: MAX_RETRIES_def)
  obtain l0 where s0: "retry_loop srv req 0 =
      (fst (retry_loop srv req (Suc 0)),
       [Post req, Print l0] @ backoff 0 @ snd (retry_loop srv req (Suc 0)))"
    using retry_loop_step[of 0 srv req] f(1) by (auto simp: MAX_RETRIES_def)
  show ?thesis
    unfolding s0 s1 s2 e3 backoff_0 backoff_1 backoff_2 by simp
qed

lemma call_llm_api_loop: "\<exists>req. call_llm_api srv prompt = retry_loop srv req 0"
  unfolding call_llm_api_def Let_def by blast

lemma retry_loop_post_count: "length (posts (snd (retry_loop srv req a))) \<le> MAX_RETRIES - a"
proof (induction srv req a rule: retry_loop.induct)
  case (1 srv req attempt)
  show ?case
  proof (cases "attempt < MAX_RETRIES")
    case False
    then show ?thesis by (subst retry_loop.simps) simp
  next
    case True
    obtain fl out where tp: "try_post srv req attempt = (fl, out)" by fastforce
    have po: "posts out = [req]" using try_post_posts[of srv req attempt] tp by simp
    show ?thesis
    proof (cases fl)
      case (Returns r)
      then show ?thesis using retry_loop_return[OF True, of srv req r out] tp po True by simp
    next
      case (Raises e)
      then show ?thesis using retry_loop_raise[OF True, of srv req e out] tp po True by simp
    next
      case Continues
      have "length (posts (snd (retry_loop srv req (Suc attempt)))) \<le> MAX_RETRIES - Suc attempt"
        using "1.IH"[OF True tp[symmetric] Continues] by simp
      moreover have "posts (backoff attempt) = []" by (simp add: backoff_def Let_def)
      ultimately show ?thesis
        using True tp Continues po
        by (subst retry_loop.simps) (simp add: case_prod_beta posts_append)
    qed
  qed
qed

lemma retry_loop_first_post:
  assumes "a < MAX_RETRIES"
  shows "\<exists>rest. posts (snd (retry_loop srv req a)) = req # rest"
proof -
  obtain fl out where tp: "try_post srv req a = (fl, out)" by fastforce
  have po: "posts out = [req]" using try_post_posts[of srv req a] tp by simp
  show ?thesis
    using assms tp po
    by (subst retry_loop.simps) (cases fl; simp add: case_prod_beta posts_append)
qed

lemma retry_loop_posts_replicate:
  "posts (snd (retry_loop srv req a)) = replicate (length (posts (snd (retry_loop srv req a)))) req"
  using retry_loop_posts[of srv req a]
  by (metis replicate_length_same singletonD subsetD)

lemma retry_loop_absent:
  assumes "a < MAX_RETRIES" "srv a = Inr resp" "status_code resp = 200" "resp_json resp = Inr d"
    "reads_as_absent d"
  shows "retry_loop srv req a =
           (Inr None, [Post req, Print [Text ''Unexpected response format: '', ReprOf d]])"
  using retry_loop_return[OF assms(1) try_post_absent[of srv a resp d req]] assms by simp

lemma retry_loop_content:
  assumes "a < MAX_RETRIES" "srv a = Inr resp" "status_code resp = 200" "resp_json resp = Inr d"
    "first_content d = Some s"
  shows "retry_loop srv req a = (Inr (Some (strip s)), [Post req])"
  using retry_loop_return[OF assms(1) try_post_content[of srv a resp d s req]] assms by simp

lemma retry_loop_on_200:
  assumes "a < MAX_RETRIES" "srv a = Inr resp" "status_code resp = 200" "resp_json resp = Inr d"
  shows "fst (retry_loop srv req a) = (case read_choices d of Inl e \<Rightarrow> Inl e | Inr r \<Rightarrow> Inr r) \<and>
         snd (retry_loop srv req a) = snd (try_post srv req a)"
proof -
  obtain fl out where tp: "try_post srv req a = (fl, out)" by fastforce
  have "fl = (case read_choices d of Inl e \<Rightarrow> Raises e | Inr r \<Rightarrow> Returns r)"
    using try_post_body[of srv a resp d req] assms tp by simp
  then show ?thesis
    using assms(1) tp
    by (subst (1 2) retry_loop.simps) (auto split: sum.splits)
qed

lemma rev_split: "xs = rev (dropWhile P (rev xs)) @ rev (takeWhile P (rev xs))"
  by (metis rev_append rev_rev_ident takeWhile_dropWhile_id)

lemma strip_decomp:
  "\<exists>a b. s = a @ strip s @ b \<and> (\<forall>c \<in> set a. isspace c) \<and> (\<forall>c \<in> set b. isspace c)"
proof -
  let ?d = "dropWhile isspace s"
  have 1: "s = takeWhile isspace s @ ?d" by simp
  have 2: "?d = strip s @ rev (takeWhile isspace (rev ?d))"
    unfolding strip_def by (rule rev_split)
  have 3: "\<forall>c \<in> set (takeWhile isspace s). isspace c"
    by (auto dest: set_takeWhileD)
  have 4: "\<forall>c \<in> set (rev (takeWhile isspace (rev ?d))). isspace c"
    by (auto dest: set_takeWhileD)
  have "s = takeWhile isspace s @ strip s @ rev (takeWhile isspace (rev ?d))"
    using 1 2 by metis
  then show ?thesis using 3 4 by blast
qed

lemma strip_ends:
  assumes "strip s \<noteq> []"
  shows "\<not> isspace (hd (strip s)) \<and> \<not> isspace (last (strip s))"
proof -
  let ?d = "dropWhile isspace s"
  let ?e = "dropWhile isspace (rev ?d)"
  have e: "?e \<noteq> []" using assms by (simp add: strip_def)
  then have l: "\<not> isspace (hd ?e)" by (rule hd_dropWhile)
  have "last (strip s) = hd ?e" using e by (simp add: strip_def last_rev)
  then have last_ok: "\<not> isspace (last (strip s))" using l by simp
  have d: "?d \<noteq> []"
  proof
    assume "?d = []"
    then have "?e = []" by (metis dropWhile.simps(1) rev.simps(1))
    then show False using e by simp
  qed
  then have hd_d: "\<not> isspace (hd ?d)" by (rule hd_dropWhile)
  have "?d = strip s @ rev (takeWhile isspace (rev ?d))"
    unfolding strip_def by (rule rev_split)
  then have "hd ?d = hd (strip s)" using assms by (metis hd_append2)
  then show ?thesis using hd_d last_ok by simp
qed

lemma repeat_eq: "repeat_str ''='' 50 = replicate 50 CHR ''=''"
  by (simp add: repeat_str_def flip: replicate_append_same)

subsection \<open>Whole runs\<close>

lemma actions_append: "actions (xs @ ys) = actions xs @ actions ys"
  by (simp add: actions_def)

lemma diff_items_actions: "actions (snd (diff_items r ps (diffs, out))) = actions out"
  unfolding diff_items_eq
  by (induction ps arbitrary: out) (auto simp: actions_def split: sum.splits)

lemma get_git_diffs_actions: "actions (snd (get_git_diffs Repo repo_path)) = []"
proof (cases "Repo repo_path")
  case (Inl e)
  then show ?thesis by (simp add: get_git_diffs_def actions_def)
next
  case (Inr r)
  have none: "actions [] = []"
    by (simp add: actions_def)
  have "actions (snd (diff_items r items ([], []))) = []" for items
    using diff_items_actions[of r items "[]" "[]"] none by simp
  then show ?thesis
    using Inr none by (cases "index_diff r") (simp_all add: get_git_diffs_def case_prod_beta)
qed

lemma max_retries_pos: "0 < MAX_RETRIES"
  by (simp add: MAX_RETRIES_def)

lemma all_fail_api:
  assumes "\<forall>i<MAX_RETRIES. attempt_fails (srv i)"
  shows "\<exists>req l0 l1 l2. call_llm_api srv prompt =
    (Inr None,
     [Post req, Print l0, Print [Text ''Retrying in '', Text ''1'', Text '' seconds...''], Sleep 1,
      Post req, Print l1, Print [Text ''Retrying in '', Text ''2'', Text '' seconds...''], Sleep 2,
      Post req, Print l2, Print [Text ''Failed to get response from LLM after all retries.'']])"
proof -
  obtain req where "call_llm_api srv prompt = retry_loop srv req 0"
    using call_llm_api_loop by blast
  then show ?thesis using all_fail_events[OF assms, of req] by metis
qed

lemma all_fail_sleeps:
  assumes "\<forall>i<MAX_RETRIES. attempt_fails (srv i)"
  shows "sleeps (snd (call_llm_api srv prompt)) = [1, 2]"
  using all_fail_api[OF assms, of prompt] by auto

lemma api_on_200:
  assumes "srv 0 = Inr resp" "status_code resp = 200" "resp_json resp = Inr d"
  shows "fst (call_llm_api srv prompt) = (case read_choices d of Inl e \<Rightarrow> Inl e | Inr r \<Rightarrow> Inr r)"
proof -
  obtain req where "call_llm_api srv prompt = retry_loop srv req 0"
    using call_llm_api_loop by blast
  then show ?thesis
    using retry_loop_on_200[of 0 srv resp d req] max_retries_pos assms by simp
qed

text \<open>
  Claim C2, as amended: when all three attempts fail (a \<open>RequestException\<close> or a status
  other than 200 each time), the program sleeps \<open>BASE_DELAY * 2^i\<close> seconds after each
  attempt \<open>i\<close> but the last: 1 second after attempt 0 and 2 seconds after attempt 1,
  nothing after attempt 2, 3 seconds in all; it prints
  \<open>Failed to get response from LLM after all retries.\<close> last and returns \<open>None\<close>.
\<close>

theorem backoff_schedule_when_all_attempts_fail:
  assumes "\<forall>i<MAX_RETRIES. attempt_fails (srv i)"
  shows "fst (call_llm_api srv prompt) = Inr None \<and>
         sleeps (snd (call_llm_api srv prompt)) = map (\<lambda>i. BASE_DELAY * 2 ^ i) [0..<MAX_RETRIES - 1] \<and>
         sleeps (snd (call_llm_api srv prompt)) = [1, 2] \<and>
         sum_list (sleeps (snd (call_llm_api srv prompt))) = 3 \<and>
         (\<exists>req. actions (snd (call_llm_api srv prompt)) = [Post req, Sleep 1, Post req, Sleep 2, Post req]) \<and>
         last (snd (call_llm_api srv prompt)) = Print [Text ''Failed to get response from LLM after all retries.'']"
proof -
  obtain req l0 l1 l2 where run: "call_llm_api srv prompt =
    (Inr None,
     [Post req, Print l0, Print [Text ''Retrying in '', Text ''1'', Text '' seconds...''], Sleep 1,
      Post req, Print l1, Print [Text ''Retrying in '', Text ''2'', Text '' seconds...''], Sleep 2,
      Post req, Print l2, Print [Text ''Failed to get response from LLM after all retries.'']])"
    using all_fail_api[OF assms] by blast
  have up: "[0..<MAX_RETRIES - 1] = [0, Suc 0]"
    by (simp add: MAX_RETRIES_def upt_rec)
  show ?thesis
    unfolding run up by (simp add: actions_def BASE_DELAY_def)
qed

theorem backoff_schedule_when_all_attempts_fail_witness:
  "fst (call_llm_api (\<lambda>i. if i = 1 then Inl RequestException
                           else Inr \<lparr>status_code = 500, resp_text = ''Internal Server Error'',
                                     resp_json = Inl RequestException\<rparr>) ''diff'') = Inr None \<and>
   sleeps (snd (call_llm_api (\<lambda>i. if i = 1 then Inl RequestException
                           else Inr \<lparr>status_code = 500, resp_text = ''Internal Server Error'',
                                     resp_json = Inl RequestException\<rparr>) ''diff'')) = [1, 2]"
proof -
  have h: "\<forall>i<MAX_RETRIES. attempt_fails
             ((\<lambda>i. if i = 1 then Inl RequestException
                    else Inr \<lparr>status_code = 500, resp_text = ''Internal Server Error'',
                              resp_json = Inl RequestException\<rparr>) i)"
    by (simp add: attempt_fails_def)
  show ?thesis using backoff_schedule_when_all_attempts_fail[OF h, of "''diff''"] by blast
qed

text \<open>
  Three answers with status 500: the sleeps are 1 and 2 seconds, so the backoff does not
  add up to 7 seconds.
\<close>

theorem three_failures_sleep_three_seconds_not_seven:
  "sleeps (snd (call_llm_api (\<lambda>i. Inr \<lparr>status_code = 500, resp_text = ''Internal Server Error'',
                                     resp_json = Inl RequestException\<rparr>) ''diff'')) = [1, 2] \<and>
   sum_list (sleeps (snd (call_llm_api (\<lambda>i. Inr \<lparr>status_code = 500, resp_text = ''Internal Server Error'',
                                     resp_json = Inl RequestException\<rparr>) ''diff''))) \<noteq> 7"
proof -
  have "sleeps (snd (call_llm_api (\<lambda>i. Inr \<lparr>status_code = 500, resp_text = ''Internal Server Error'',
                                     resp_json = Inl RequestException\<rparr>) ''diff'')) = [1, 2]"
    by (rule all_fail_sleeps) (simp add: attempt_fails_def)
  then show ?thesis by simp
qed




lemma call_llm_api_request:
  "call_llm_api srv prompt =
     retry_loop srv
       \<lparr>url = ''http://localhost:11434/v1/chat/completions'',
         payload = JObj [(''model'', JStr ''llama3''),
                         (''messages'', JList [JObj [(''role'', JStr ''system''), (''content'', JStr SYSTEM_PROMPT)],
                                               JObj [(''role'', JStr ''user''), (''content'', JStr prompt)]]),
                         (''temperature'', JFloat 3 (- 1)),
                         (''max_tokens'', JInt 500)],
         headers = [(''Content-Type'', ''application/json''), (''Authorization'', ''Bearer ollama'')],
         timeout = 30\<rparr> 0"
  by (simp add: call_llm_api_def Let_def API_KEY_def MODEL_NAME_def API_ENDPOINT_def)

text \<open>
  Claim C4, as amended: on a 200 response whose body reads as absent (an object without
  \<open>choices\<close> or with an empty value under it, or an array or string without
  \<open>choices\<close>), the loop returns \<open>None\<close> at once, whatever the attempt number: one POST, the
  line \<open>Unexpected response format\<close>, no further POST and no sleep. \<open>None\<close> is returned on
  exactly these bodies; on every 200 response with a parsed body, of whatever shape, the
  attempt is the last one and no sleep follows.
\<close>

theorem absent_choices_returns_none_without_retry:
  "(a < MAX_RETRIES \<and> srv a = Inr resp \<and> status_code resp = 200 \<and> resp_json resp = Inr d \<longrightarrow>
      ((fst (retry_loop srv req a) = Inr None) = reads_as_absent d) \<and>
      (reads_as_absent d \<longrightarrow>
         retry_loop srv req a =
           (Inr None, [Post req, Print [Text ''Unexpected response format: '', ReprOf d]])) \<and>
      posts (snd (retry_loop srv req a)) = [req] \<and>
      sleeps (snd (retry_loop srv req a)) = []) \<and>
   (srv 0 = Inr resp \<and> status_code resp = 200 \<and> resp_json resp = Inr d \<and> reads_as_absent d \<longrightarrow>
      fst (call_llm_api srv prompt) = Inr None \<and>
      length (posts (snd (call_llm_api srv prompt))) = 1 \<and>
      sleeps (snd (call_llm_api srv prompt)) = [])"
proof -
  have first: "((fst (retry_loop srv req a) = Inr None) = reads_as_absent d) \<and>
      (reads_as_absent d \<longrightarrow>
         retry_loop srv req a =
           (Inr None, [Post req, Print [Text ''Unexpected response format: '', ReprOf d]])) \<and>
      posts (snd (retry_loop srv req a)) = [req] \<and>
      sleeps (snd (retry_loop srv req a)) = []"
    if h: "a < MAX_RETRIES" "srv a = Inr resp" "status_code resp = 200" "resp_json resp = Inr d"
    for a req
  proof -
    have on: "fst (retry_loop srv req a) = (case read_choices d of Inl e \<Rightarrow> Inl e | Inr r \<Rightarrow> Inr r)"
      and ev: "snd (retry_loop srv req a) = snd (try_post srv req a)"
      using retry_loop_on_200[of a srv resp d req] h by simp_all
    have "(fst (retry_loop srv req a) = Inr None) = (read_choices d = Inr None)"
      unfolding on by (cases "read_choices d") simp_all
    then have iff: "(fst (retry_loop srv req a) = Inr None) = reads_as_absent d"
      by (simp add: read_choices_None)
    have ab: "reads_as_absent d \<longrightarrow>
         retry_loop srv req a =
           (Inr None, [Post req, Print [Text ''Unexpected response format: '', ReprOf d]])"
      using retry_loop_absent[of a srv resp d req] h by simp
    show ?thesis
      using iff ab by (simp add: ev try_post_posts try_post_sleeps)
  qed
  have second: "fst (call_llm_api srv prompt) = Inr None \<and>
      length (posts (snd (call_llm_api srv prompt))) = 1 \<and>
      sleeps (snd (call_llm_api srv prompt)) = []"
    if h: "srv 0 = Inr resp" "status_code resp = 200" "resp_json resp = Inr d" "reads_as_absent d"
  proof -
    obtain rq where rq: "call_llm_api srv prompt = retry_loop srv rq 0"
      using call_llm_api_loop by blast
    show ?thesis
      unfolding rq using first[of 0 rq] h max_retries_pos by simp
  qed
  show ?thesis using first[of a req] second by blast
qed

theorem absent_choices_returns_none_without_retry_witness:
  "fst (call_llm_api (\<lambda>i. Inr \<lparr>status_code = 200, resp_text = ''{}'', resp_json = Inr (JObj [])\<rparr>) ''diff'')
     = Inr None \<and>
   length (posts (snd (call_llm_api (\<lambda>i. Inr \<lparr>status_code = 200, resp_text = ''{}'', resp_json = Inr (JObj [])\<rparr>) ''diff''))) = 1 \<and>
   sleeps (snd (call_llm_api (\<lambda>i. Inr \<lparr>status_code = 200, resp_text = ''{}'', resp_json = Inr (JObj [])\<rparr>) ''diff'')) = []"
  using absent_choices_returns_none_without_retry[of 0 "\<lambda>i. Inr \<lparr>status_code = 200, resp_text = ''{}'', resp_json = Inr (JObj [])\<rparr>"
              "\<lparr>status_code = 200, resp_text = ''{}'', resp_json = Inr (JObj [])\<rparr>" "JObj []" _ "''diff''"]
  by (simp add: reads_as_absent_def)

text \<open>
  A 200 response whose \<open>choices\<close> is the number 5 has no non-empty \<open>choices\<close> array, yet
  \<open>len(data["choices"])\<close> raises a \<open>TypeError\<close> and nothing is returned.
\<close>

theorem choices_not_an_array_raises_TypeError:
  "fst (call_llm_api
         (\<lambda>i. Inr \<lparr>status_code = 200,
                    resp_text = ''{'' @ [CHR 0x22] @ ''choices'' @ [CHR 0x22] @ '': 5}'',
                    resp_json = Inr (JObj [(''choices'', JInt 5)])\<rparr>) ''diff'')
   = Inl TypeError"
proof -
  let ?d = "JObj [(''choices'', JInt 5)]"
  let ?resp = "\<lparr>status_code = 200,
                 resp_text = ''{'' @ [CHR 0x22] @ ''choices'' @ [CHR 0x22] @ '': 5}'',
                 resp_json = Inr ?d\<rparr>"
  have "read_choices ?d = Inl TypeError"
    by (simp add: read_choices_def bind_exn_def)
  then show ?thesis
    using api_on_200[of "\<lambda>i. Inr ?resp" ?resp ?d "''diff''"] by simp
qed

text \<open>
  Claim C8: every POST of \<open>call_llm_api\<close> carries the same request: the model name, the
  system message followed by one user message holding the prompt, temperature 0.3,
  \<open>max_tokens\<close> 500, and the headers \<open>Content-Type: application/json\<close> and
  \<open>Authorization: Bearer ollama\<close>; there are between one and three POSTs; the prompt that
  \<open>generate_commit_message\<close> passes is the fixed template around the diffs.
\<close>

theorem every_post_carries_the_fixed_payload:
  "posts (snd (call_llm_api srv prompt)) =
     replicate (length (posts (snd (call_llm_api srv prompt))))
       \<lparr>url = ''http://localhost:11434/v1/chat/completions'',
         payload = JObj [(''model'', JStr ''llama3''),
                         (''messages'', JList [JObj [(''role'', JStr ''system''), (''content'', JStr SYSTEM_PROMPT)],
                                               JObj [(''role'', JStr ''user''), (''content'', JStr prompt)]]),
                         (''temperature'', JFloat 3 (- 1)),
                         (''max_tokens'', JInt 500)],
         headers = [(''Content-Type'', ''application/json''), (''Authorization'', ''Bearer ollama'')],
         timeout = 30\<rparr> \<and>
   1 \<le> length (posts (snd (call_llm_api srv prompt))) \<and>
   length (posts (snd (call_llm_api srv prompt))) \<le> 3 \<and>
   generate_commit_message srv diffs =
     call_llm_api srv
       (''\<newline>Please analyze the following git changes and generate an appropriate commit message:\<newline>\<newline>'' @
        diffs @
        ''\<newline>\<newline>Remember to follow the conventional commit format and focus on the actual changes made.\<newline>'')"
proof -
  let ?req = "\<lparr>url = ''http://localhost:11434/v1/chat/completions'',
         payload = JObj [(''model'', JStr ''llama3''),
                         (''messages'', JList [JObj [(''role'', JStr ''system''), (''content'', JStr SYSTEM_PROMPT)],
                                               JObj [(''role'', JStr ''user''), (''content'', JStr prompt)]]),
                         (''temperature'', JFloat 3 (- 1)),
                         (''max_tokens'', JInt 500)],
         headers = [(''Content-Type'', ''application/json''), (''Authorization'', ''Bearer ollama'')],
         timeout = 30\<rparr>"
  have run: "call_llm_api srv prompt = retry_loop srv ?req 0"
    by (rule call_llm_api_request)
  have 1: "posts (snd (call_llm_api srv prompt)) =
     replicate (length (posts (snd (call_llm_api srv prompt)))) ?req"
    unfolding run by (rule retry_loop_posts_replicate)
  have 2: "1 \<le> length (posts (snd (call_llm_api srv prompt)))"
    unfolding run using retry_loop_first_post[OF max_retries_pos, of srv ?req] by auto
  have 3: "length (posts (snd (call_llm_api srv prompt))) \<le> 3"
    unfolding run using retry_loop_post_count[of srv ?req 0] by (simp add: MAX_RETRIES_def)
  have 4: "generate_commit_message srv diffs =
     call_llm_api srv
       (''\<newline>Please analyze the following git changes and generate an appropriate commit message:\<newline>\<newline>'' @
        diffs @
        ''\<newline>\<newline>Remember to follow the conventional commit format and focus on the actual changes made.\<newline>'')"
    by (simp add: generate_commit_message_def Let_def)
  show ?thesis using 1 2 3 4 by blast
qed

theorem every_post_carries_the_fixed_payload_witness:
  "set (posts (snd (call_llm_api (\<lambda>i. Inl RequestException) ''hello''))) =
     {\<lparr>url = ''http://localhost:11434/v1/chat/completions'',
        payload = JObj [(''model'', JStr ''llama3''),
                        (''messages'', JList [JObj [(''role'', JStr ''system''), (''content'', JStr SYSTEM_PROMPT)],
                                              JObj [(''role'', JStr ''user''), (''content'', JStr ''hello'')]]),
                        (''temperature'', JFloat 3 (- 1)),
                        (''max_tokens'', JInt 500)],
        headers = [(''Content-Type'', ''application/json''), (''Authorization'', ''Bearer ollama'')],
        timeout = 30\<rparr>}"
proof -
  let ?run = "posts (snd (call_llm_api (\<lambda>i. Inl RequestException) ''hello''))"
  let ?req = "\<lparr>url = ''http://localhost:11434/v1/chat/completions'',
        payload = JObj [(''model'', JStr ''llama3''),
                        (''messages'', JList [JObj [(''role'', JStr ''system''), (''content'', JStr SYSTEM_PROMPT)],
                                              JObj [(''role'', JStr ''user''), (''content'', JStr ''hello'')]]),
                        (''temperature'', JFloat 3 (- 1)),
                        (''max_tokens'', JInt 500)],
        headers = [(''Content-Type'', ''application/json''), (''Authorization'', ''Bearer ollama'')],
        timeout = 30\<rparr>"
  note t = every_post_carries_the_fixed_payload[of "\<lambda>i. Inl RequestException" "''hello''" "''diff''"]
  have p: "?run = replicate (length ?run) ?req"
    using t by (rule conjunct1)
  have n: "1 \<le> length ?run"
    using t by (elim conjE)
  have "set ?run = set (replicate (length ?run) ?req)"
    using p by (rule arg_cong)
  also have "\<dots> = {?req}"
  proof (rule set_replicate)
    show "length ?run \<noteq> 0" using n by arith
  qed
  finally show ?thesis .
qed

lemma api_content:
  assumes "srv 0 = Inr resp" "status_code resp = 200" "resp_json resp = Inr d"
    "first_content d = Some content"
  shows "fst (call_llm_api srv prompt) = Inr (Some (strip content))"
  using api_on_200[of srv resp d prompt] read_choices_content[of d content] assms by simp

lemma strip_example: "strip ''  feat: add X  '' = ''feat: add X''"
  by (simp add: strip_def isspace_def)

lemma main_renders:
  assumes "Repo repo_path = Inr r" "fst (get_git_diffs Repo repo_path) = Inr diffs" "diffs \<noteq> []"
    "fst (generate_commit_message srv diffs) = Inr (Some message)"
  shows "main Repo srv repo_path =
     (Inr (), snd (get_git_diffs Repo repo_path) @ snd (generate_commit_message srv diffs) @
        [Print [Text ''Suggested commit message:''],
         Print [Text (replicate 50 CHR ''='')],
         Print [Text message],
         Print [Text (replicate 50 CHR ''='')]])"
proof -
  obtain out where g: "get_git_diffs Repo repo_path = (Inr diffs, out)"
    using assms(2) by (cases "get_git_diffs Repo repo_path") simp
  obtain net where m: "generate_commit_message srv diffs = (Inr (Some message), net)"
    using assms(4) by (cases "generate_commit_message srv diffs") simp
  show ?thesis
    using assms(1,3) g m
    by (simp add: main_def is_git_repository_def repeat_eq)
qed

text \<open>
  Claim C9, as amended: on a 200 response whose \<open>choices\<close> is a non-empty array and whose
  first choice holds a string under \<open>message.content\<close>, the loop returns that string
  stripped of leading and trailing whitespace (\<open>'  feat: add X  '\<close> gives
  \<open>'feat: add X'\<close>), with no further attempt; and \<open>main\<close> prints the returned message
  between two lines of exactly 50 \<open>=\<close> characters, after the line
  \<open>Suggested commit message:\<close>.
\<close>

theorem first_choice_content_is_returned_stripped_and_framed:
  "(a < MAX_RETRIES \<and> srv a = Inr resp \<and> status_code resp = 200 \<and> resp_json resp = Inr d \<and>
    first_content d = Some content \<longrightarrow>
      retry_loop srv req a = (Inr (Some (strip content)), [Post req])) \<and>
   (srv 0 = Inr resp \<and> status_code resp = 200 \<and> resp_json resp = Inr d \<and>
    first_content d = Some content \<longrightarrow>
      fst (call_llm_api srv prompt) = Inr (Some (strip content))) \<and>
   (\<exists>a b. content = a @ strip content @ b \<and> (\<forall>c \<in> set a. isspace c) \<and> (\<forall>c \<in> set b. isspace c)) \<and>
   (strip content \<noteq> [] \<longrightarrow> \<not> isspace (hd (strip content)) \<and> \<not> isspace (last (strip content))) \<and>
   strip ''  feat: add X  '' = ''feat: add X'' \<and>
   (Repo repo_path = Inr r \<and> fst (get_git_diffs Repo repo_path) = Inr diffs \<and> diffs \<noteq> [] \<and>
    fst (generate_commit_message srv diffs) = Inr (Some message) \<longrightarrow>
      main Repo srv repo_path =
        (Inr (), snd (get_git_diffs Repo repo_path) @ snd (generate_commit_message srv diffs) @
           [Print [Text ''Suggested commit message:''],
            Print [Text (replicate 50 CHR ''='')],
            Print [Text message],
            Print [Text (replicate 50 CHR ''='')]]))"
proof -
  have 1: "retry_loop srv req a = (Inr (Some (strip content)), [Post req])"
    if "a < MAX_RETRIES \<and> srv a = Inr resp \<and> status_code resp = 200 \<and> resp_json resp = Inr d \<and>
        first_content d = Some content"
    using retry_loop_content[of a srv resp d content req] that by simp
  have 2: "fst (call_llm_api srv prompt) = Inr (Some (strip content))"
    if "srv 0 = Inr resp \<and> status_code resp = 200 \<and> resp_json resp = Inr d \<and>
        first_content d = Some content"
    using api_content[of srv resp d content prompt] that by simp
  have 3: "\<exists>a b. content = a @ strip content @ b \<and> (\<forall>c \<in> set a. isspace c) \<and> (\<forall>c \<in> set b. isspace c)"
    by (rule strip_decomp)
  have 4: "strip content \<noteq> [] \<longrightarrow> \<not> isspace (hd (strip content)) \<and> \<not> isspace (last (strip content))"
    using strip_ends by blast
  have 5: "main Repo srv repo_path =
        (Inr (), snd (get_git_diffs Repo repo_path) @ snd (generate_commit_message srv diffs) @
           [Print [Text ''Suggested commit message:''],
            Print [Text (replicate 50 CHR ''='')],
            Print [Text message],
            Print [Text (replicate 50 CHR ''='')]])"
    if "Repo repo_path = Inr r \<and> fst (get_git_diffs Repo repo_path) = Inr diffs \<and> diffs \<noteq> [] \<and>
        fst (generate_commit_message srv diffs) = Inr (Some message)"
    using main_renders[of Repo repo_path r diffs srv message] that by simp
  show ?thesis
    using 1 2 3 4 5 strip_example by blast
qed

theorem first_choice_content_is_returned_stripped_and_framed_witness:
  "fst (call_llm_api
         (\<lambda>i. Inr \<lparr>status_code = 200, resp_text = ''ok'',
                    resp_json = Inr (JObj [(''choices'',
                      JList [JObj [(''message'', JObj [(''content'', JStr ''  feat: add X  '')])]])])\<rparr>)
         ''diff'')
     = Inr (Some ''feat: add X'') \<and>
   main (\<lambda>path. Inr \<lparr>index_diff = Inr [''a.py''], git_diff = (\<lambda>p. Inr ''+z'')\<rparr>)
        (\<lambda>i. Inr \<lparr>status_code = 200, resp_text = ''ok'',
                   resp_json = Inr (JObj [(''choices'',
                     JList [JObj [(''message'', JObj [(''content'', JStr ''  feat: add X  '')])]])])\<rparr>)
        ''.''
     = (Inr (),
        snd (generate_commit_message
              (\<lambda>i. Inr \<lparr>status_code = 200, resp_text = ''ok'',
                         resp_json = Inr (JObj [(''choices'',
                           JList [JObj [(''message'', JObj [(''content'', JStr ''  feat: add X  '')])]])])\<rparr>)
              ''File: a.py\<newline>+z'') @
        [Print [Text ''Suggested commit message:''],
         Print [Text ''==================================================''],
         Print [Text ''feat: add X''],
         Print [Text ''=================================================='']])"
proof -
  let ?d = "JObj [(''choices'', JList [JObj [(''message'', JObj [(''content'', JStr ''  feat: add X  '')])]])]"
  let ?resp = "\<lparr>status_code = 200, resp_text = ''ok'', resp_json = Inr ?d\<rparr>"
  let ?srv = "\<lambda>i::nat. Inr ?resp :: exn + response"
  let ?r = "\<lparr>index_diff = Inr [''a.py''], git_diff = (\<lambda>p. Inr ''+z'')\<rparr>"
  let ?Repo = "\<lambda>path::string. Inr ?r :: exn + repo"
  have fc: "first_content ?d = Some ''  feat: add X  ''"
    by (simp add: first_content_def message_content_def)
  have g: "get_git_diffs ?Repo ''.'' = (Inr ''File: a.py\<newline>+z'', [])"
    by (simp add: get_git_diffs_def process_diff_def relevant_def startswith_def)
  note t = first_choice_content_is_returned_stripped_and_framed
             [of 0 ?srv ?resp ?d "''  feat: add X  ''" _ _ ?Repo "''.''" ?r "''File: a.py\<newline>+z''" "''feat: add X''"]
  have api: "\<And>prompt. fst (call_llm_api ?srv prompt) = Inr (Some ''feat: add X'')"
    using first_choice_content_is_returned_stripped_and_framed
             [of 0 ?srv ?resp ?d "''  feat: add X  ''"] fc by simp
  have gen: "fst (generate_commit_message ?srv ''File: a.py\<newline>+z'') = Inr (Some ''feat: add X'')"
    unfolding generate_commit_message_def Let_def by (rule api)
  have "main ?Repo ?srv ''.'' =
        (Inr (), snd (get_git_diffs ?Repo ''.'') @ snd (generate_commit_message ?srv ''File: a.py\<newline>+z'') @
           [Print [Text ''Suggested commit message:''],
            Print [Text (replicate 50 CHR ''='')],
            Print [Text ''feat: add X''],
            Print [Text (replicate 50 CHR ''='')]])"
    using t g gen by simp
  moreover have "replicate 50 CHR ''='' = ''==================================================''"
    by (simp add: numeral_eq_Suc)
  ultimately show ?thesis using api g by simp
qed

text \<open>
  A 200 response whose first choice has \<open>null\<close> under \<open>message.content\<close>: the array is
  not empty, yet \<open>.strip()\<close> raises an \<open>AttributeError\<close> and no message is returned.
\<close>

theorem null_content_raises_AttributeError:
  "fst (call_llm_api
         (\<lambda>i. Inr \<lparr>status_code = 200, resp_text = ''ok'',
                    resp_json = Inr (JObj [(''choices'',
                      JList [JObj [(''message'', JObj [(''content'', JNull)])]])])\<rparr>)
         ''diff'')
   = Inl AttributeError"
proof -
  let ?d = "JObj [(''choices'', JList [JObj [(''message'', JObj [(''content'', JNull)])]])]"
  let ?resp = "\<lparr>status_code = 200, resp_text = ''ok'', resp_json = Inr ?d\<rparr>"
  have "read_choices ?d = Inl AttributeError"
    by (simp add: read_choices_def bind_exn_def)
  then show ?thesis
    using api_on_200[of "\<lambda>i. Inr ?resp" ?resp ?d "''diff''"] by simp
qed

lemma main_invalid:
  assumes "Repo repo_path = Inl InvalidGitRepositoryError"
  shows "main Repo srv repo_path =
           (Inr (), [Print [Text ''Error: The specified path is not a valid git repository.'']])"
  using assms by (simp add: main_def is_git_repository_def)

lemma main_raises_from_git:
  assumes "Repo repo_path = Inl e" "e \<noteq> InvalidGitRepositoryError"
  shows "main Repo srv repo_path = (Inl e, [])"
  using assms by (simp add: main_def is_git_repository_def)

lemma main_no_changes:
  assumes "Repo repo_path = Inr r" "fst (get_git_diffs Repo repo_path) = Inr []"
  shows "main Repo srv repo_path =
           (Inr (), snd (get_git_diffs Repo repo_path) @
                    [Print [Text ''No changes detected in the repository.'']])"
proof -
  obtain out where g: "get_git_diffs Repo repo_path = (Inr [], out)"
    using assms(2) by (cases "get_git_diffs Repo repo_path") simp
  show ?thesis using assms(1) g by (simp add: main_def is_git_repository_def)
qed

lemma main_raises_from_index_diff:
  assumes "Repo repo_path = Inr r" "index_diff r = Inl e"
  shows "main Repo srv repo_path = (Inl e, [])"
  using assms by (simp add: main_def is_git_repository_def get_git_diffs_def)

lemma main_returns:
  assumes "Repo repo_path = Inl InvalidGitRepositoryError \<or>
           (\<exists>r items. Repo repo_path = Inr r \<and> index_diff r = Inr items)"
  shows "fst (main Repo srv repo_path) = Inr ()"
proof (cases "Repo repo_path")
  case (Inl e)
  then have "e = InvalidGitRepositoryError" using assms by auto
  then show ?thesis using Inl main_invalid[of Repo repo_path srv] by simp
next
  case (Inr r)
  then obtain items where "index_diff r = Inr items" using assms by auto
  then obtain diffs out where g: "get_git_diffs Repo repo_path = (Inr diffs, out)"
    using Inr by (simp add: get_git_diffs_def case_prod_beta)
  obtain res net where m: "generate_commit_message srv diffs = (res, net)"
    by fastforce
  show ?thesis
    using Inr g m
    by (cases res) (auto simp: main_def is_git_repository_def split: option.splits)
qed

text \<open>
  Claim C6 says that for every path that names no valid git repository \<open>main\<close> prints
  \<open>Error: The specified path is not a valid git repository.\<close>, does nothing else and
  ends with exit code 0. The program does so when \<open>git.Repo\<close> raises
  \<open>InvalidGitRepositoryError\<close>, the one class that \<open>is_git_repository\<close> catches. For a path
  that does not exist \<open>git.Repo\<close> raises \<open>NoSuchPathError\<close>, which is not a subclass of it:
  the exception leaves \<open>is_git_repository\<close> and, the call standing outside every \<open>try\<close>,
  leaves \<open>main\<close>; no line is printed and the exit code is 1.
\<close>

theorem nonexistent_path_leaves_main_uncaught:
  "main (\<lambda>path. Inl InvalidGitRepositoryError) (\<lambda>i. Inl RequestException) ''/tmp/plain'' =
     (Inr (), [Print [Text ''Error: The specified path is not a valid git repository.'']]) \<and>
   is_git_repository (\<lambda>path. Inl (OtherException ''NoSuchPathError'')) ''/no/such/dir'' =
     Inl (OtherException ''NoSuchPathError'') \<and>
   main (\<lambda>path. Inl (OtherException ''NoSuchPathError'')) (\<lambda>i. Inl RequestException) ''/no/such/dir'' =
     (Inl (OtherException ''NoSuchPathError''), []) \<and>
   exit_code (main (\<lambda>path. Inl (OtherException ''NoSuchPathError'')) (\<lambda>i. Inl RequestException)
                ''/no/such/dir'') = 1"
  by (simp add: main_def is_git_repository_def exit_code_def)

text \<open>
  Claim C7: when the repository is valid and the bundle is the empty string, \<open>main\<close>
  prints \<open>No changes detected in the repository.\<close> after the warnings of the extraction
  and stops: it builds no prompt, posts nothing and sleeps nowhere. This is so in
  particular when no file is modified.
\<close>

theorem empty_bundle_prints_no_changes_and_stops:
  "(Repo repo_path = Inr r \<and> fst (get_git_diffs Repo repo_path) = Inr [] \<longrightarrow>
      main Repo srv repo_path =
        (Inr (), snd (get_git_diffs Repo repo_path) @
                 [Print [Text ''No changes detected in the repository.'']]) \<and>
      actions (snd (main Repo srv repo_path)) = []) \<and>
   (Repo repo_path = Inr r \<and> index_diff r = Inr [] \<longrightarrow>
      main Repo srv repo_path =
        (Inr (), [Print [Text ''No changes detected in the repository.'']]))"
proof -
  have 1: "main Repo srv repo_path =
        (Inr (), snd (get_git_diffs Repo repo_path) @
                 [Print [Text ''No changes detected in the repository.'']]) \<and>
      actions (snd (main Repo srv repo_path)) = []"
    if "Repo repo_path = Inr r \<and> fst (get_git_diffs Repo repo_path) = Inr []"
  proof -
    have m: "main Repo srv repo_path =
        (Inr (), snd (get_git_diffs Repo repo_path) @
                 [Print [Text ''No changes detected in the repository.'']])"
      using main_no_changes[of Repo repo_path r srv] that by simp
    have "actions (snd (main Repo srv repo_path)) =
          actions (snd (get_git_diffs Repo repo_path)) @
          actions [Print [Text ''No changes detected in the repository.'']]"
      unfolding m by (simp add: actions_append)
    also have "\<dots> = []"
      by (simp add: get_git_diffs_actions) (simp add: actions_def)
    finally show ?thesis using m by simp
  qed
  have 2: "main Repo srv repo_path =
        (Inr (), [Print [Text ''No changes detected in the repository.'']])"
    if "Repo repo_path = Inr r \<and> index_diff r = Inr []"
  proof -
    have "get_git_diffs Repo repo_path = (Inr [], [])"
      using that by (simp add: get_git_diffs_def)
    then show ?thesis
      using main_no_changes[of Repo repo_path r srv] that by simp
  qed
  show ?thesis using 1 2 by blast
qed

theorem empty_bundle_prints_no_changes_and_stops_witness:
  "main (\<lambda>path. Inr \<lparr>index_diff = Inr [''img.png''], git_diff = (\<lambda>p. Inr ''Binary files differ'')\<rparr>)
        (\<lambda>i. Inl RequestException) ''.''
     = (Inr (), [Print [Text ''No changes detected in the repository.'']]) \<and>
   main (\<lambda>path. Inr \<lparr>index_diff = Inr [], git_diff = (\<lambda>p. Inr [])\<rparr>) (\<lambda>i. Inl RequestException) ''.''
     = (Inr (), [Print [Text ''No changes detected in the repository.'']])"
proof -
  let ?r = "\<lparr>index_diff = Inr [''img.png''], git_diff = (\<lambda>p. Inr ''Binary files differ'')\<rparr>"
  have g: "get_git_diffs (\<lambda>path. Inr ?r) ''.'' = (Inr [], [])"
    by (simp add: get_git_diffs_def process_diff_def relevant_def startswith_def)
  show ?thesis
    using g
      empty_bundle_prints_no_changes_and_stops[of "\<lambda>path. Inr ?r" "''.''" ?r "\<lambda>i. Inl RequestException"]
      empty_bundle_prints_no_changes_and_stops[of "\<lambda>path. Inr \<lparr>index_diff = Inr [], git_diff = (\<lambda>p. Inr [])\<rparr>" "''.''"
            "\<lparr>index_diff = Inr [], git_diff = (\<lambda>p. Inr [])\<rparr>" "\<lambda>i. Inl RequestException"]
    by simp
qed

end
